theory Spec2Isabelle
  imports Complex_Main "HOL-Library.FSet"
begin

section \<open>The S3 browser component: data model\<close>

text \<open>
  The development embeds \<^verbatim>\<open>src/components/s3-browser.tsx\<close>. JavaScript strings are
  modelled as \<^typ>\<open>string\<close> (lists of 8-bit characters); a field the SDK types declare
  optional (\<^verbatim>\<open>Prefix?\<close>, \<^verbatim>\<open>Key?\<close>, \<^verbatim>\<open>Size?\<close>, \<^verbatim>\<open>CommonPrefixes?\<close>,
  \<^verbatim>\<open>Contents?\<close>) is an \<^typ>\<open>'a option\<close>, with \<^term>\<open>None\<close> for \<^verbatim>\<open>undefined\<close>.
\<close>

record CommonPrefix =
  Prefix :: "string option"

record Object =
  Key :: "string option"
  Size :: "int option"
  LastModified :: "nat option"

text \<open>\<^verbatim>\<open>type S3Item = (_Object | CommonPrefix) & { type: 'file' | 'folder' }\<close>\<close>

datatype S3Item = FolderItem CommonPrefix | FileItem Object

record ListObjectsV2Output =
  CommonPrefixes :: "CommonPrefix list option"
  Contents :: "Object list option"

text \<open>What the catch block of \<^verbatim>\<open>fetchItems\<close> reads of a thrown value.\<close>

record JsError =
  name :: string
  message :: "string option"

text \<open>The argument of the checkbox callbacks: \<^verbatim>\<open>boolean | "indeterminate"\<close>.\<close>

datatype CheckedState = Checked bool | Indeterminate

fun truthy :: "CheckedState \<Rightarrow> bool" where
  "truthy (Checked b) = b"
| "truthy Indeterminate = True"

text \<open>
  The expression \<^verbatim>\<open>item.type === 'folder' ? item.Prefix : item.Key\<close>, which the
  component repeats wherever it needs the key of an item.
\<close>

fun itemKey :: "S3Item \<Rightarrow> string option" where
  "itemKey (FolderItem p) = Prefix p"
| "itemKey (FileItem c) = Key c"

subsection \<open>String and array primitives of the host language\<close>

definition startsWith :: "string \<Rightarrow> string \<Rightarrow> bool" where
  "startsWith s p = (take (length p) s = p)"

definition endsWith :: "string \<Rightarrow> string \<Rightarrow> bool" where
  "endsWith s p = (length p \<le> length s \<and> drop (length s - length p) s = p)"

primrec includesStr :: "string \<Rightarrow> string \<Rightarrow> bool" where
  "includesStr [] sub = (sub = [])"
| "includesStr (c # cs) sub = (startsWith (c # cs) sub \<or> includesStr cs sub)"

text \<open>\<^verbatim>\<open>s.replace(pat, rep)\<close> with a string pattern: the first occurrence only.\<close>

primrec replace :: "string \<Rightarrow> string \<Rightarrow> string \<Rightarrow> string" where
  "replace [] pat rep = (if pat = [] then rep else [])"
| "replace (c # cs) pat rep =
     (if startsWith (c # cs) pat then rep @ drop (length pat) (c # cs)
      else c # replace cs pat rep)"

text \<open>
  \<^verbatim>\<open>toLowerCase\<close>, on an 8-bit string: the letters A to Z are folded and every other
  character is kept. \<^verbatim>\<open>String.prototype.toLowerCase\<close> folds every cased character of
  Unicode, so the search filter below is that of the component for names and queries in
  ASCII. No statement of this development depends on which items the filter keeps.
\<close>

definition lowerChar :: "char \<Rightarrow> char" where
  "lowerChar c =
     (let n = (of_char c :: nat) in if 65 \<le> n \<and> n \<le> 90 then char_of (n + 32) else c)"

definition toLowerCase :: "string \<Rightarrow> string" where
  "toLowerCase s = map lowerChar s"

primrec split :: "char \<Rightarrow> string \<Rightarrow> string list" where
  "split d [] = [] # []"
| "split d (c # cs) =
     (if c = d then [] # split d cs
      else (case split d cs of [] \<Rightarrow> [c] # [] | p # ps \<Rightarrow> (c # p) # ps))"

fun join :: "string \<Rightarrow> string list \<Rightarrow> string" where
  "join sep [] = []"
| "join sep [x] = x"
| "join sep (x # y # ys) = x @ sep @ join sep (y # ys)"

text \<open>
  \<^verbatim>\<open>Array.prototype.slice(start, end)\<close>: a negative index counts from the end, and both
  indices are cut to the bounds of the array.
\<close>

definition slice :: "'a list \<Rightarrow> int \<Rightarrow> int \<Rightarrow> 'a list" where
  "slice xs start fin =
     (let len = int (length xs);
          k = (if start < 0 then max (len + start) 0 else min start len);
          e = (if fin < 0 then max (len + fin) 0 else min fin len)
      in take (nat (e - k)) (drop (nat k) xs))"

section \<open>The listing: the success branch of \<^verbatim>\<open>fetchItems\<close>\<close>

text \<open>
  \<^verbatim>\<open>(response.CommonPrefixes || []).map(p => ({ ...p, type: 'folder' }))\<close> and
  \<^verbatim>\<open>(response.Contents || []).filter(c => c.Key !== currentPrefix && c.Size! > 0)
     .map(c => ({ ...c, type: 'file' }))\<close>.
  A comparison of \<^verbatim>\<open>undefined\<close> with \<^verbatim>\<open>0\<close> is false.
\<close>

definition orEmpty :: "'a list option \<Rightarrow> 'a list" where
  "orEmpty v = (case v of None \<Rightarrow> [] | Some xs \<Rightarrow> xs)"

definition sizePositive :: "Object \<Rightarrow> bool" where
  "sizePositive c = (case Size c of None \<Rightarrow> False | Some n \<Rightarrow> n > 0)"

definition folders :: "ListObjectsV2Output \<Rightarrow> S3Item list" where
  "folders response = map FolderItem (orEmpty (CommonPrefixes response))"

definition files :: "string \<Rightarrow> ListObjectsV2Output \<Rightarrow> S3Item list" where
  "files currentPrefix response =
     map FileItem
       (filter (\<lambda>c. Key c \<noteq> Some currentPrefix \<and> sizePositive c) (orEmpty (Contents response)))"

definition listing :: "string \<Rightarrow> ListObjectsV2Output \<Rightarrow> S3Item list" where
  "listing currentPrefix response = folders response @ files currentPrefix response"

section \<open>Component state and derived values\<close>

text \<open>
  One field for each \<^verbatim>\<open>useState\<close> cell the browsing logic reads. The S3 client is
  created by an effect at mount and never replaced while the bucket configuration is fixed,
  so the state described here is the one after that effect. \<open>inFlight\<close> is not a cell
  of the component: it lists the prefixes of the \<^verbatim>\<open>fetchItems\<close> calls that have sent
  their command and still await the response.
\<close>

record state =
  prefix :: string
  items :: "S3Item list"
  selectedItem :: "S3Item option"
  isLoading :: bool
  searchQuery :: string
  selectedKeys :: "string option fset"
  isDownloading :: bool
  currentPage :: int
  itemsPerPage :: int
  uploadDialogOpen :: bool
  inFlight :: "string list"

text \<open>\<^verbatim>\<open>rootFolder\<close>: the configured folder with a trailing slash, or the empty string.\<close>

definition rootFolder :: "string option \<Rightarrow> string" where
  "rootFolder folder =
     (case folder of
        None \<Rightarrow> []
      | Some f \<Rightarrow> if f = [] then [] else if endsWith f ''/'' then f else f @ ''/'')"

definition relativePrefix :: "string \<Rightarrow> state \<Rightarrow> string" where
  "relativePrefix rt s =
     (if startsWith (prefix s) rt then drop (length rt) (prefix s) else prefix s)"

definition breadcrumbParts :: "string \<Rightarrow> state \<Rightarrow> string list" where
  "breadcrumbParts rt s =
     ''home'' # filter (\<lambda>part. part \<noteq> []) (split CHR ''/'' (relativePrefix rt s))"

definition fullPath :: "string \<Rightarrow> state \<Rightarrow> nat \<Rightarrow> string" where
  "fullPath rt s index =
     rt @ (if index = 0 then []
             else join ''/'' (slice (breadcrumbParts rt s) 1 (int index + 1)) @ ''/'')"

text \<open>The name an item is searched and shown by; \<^verbatim>\<open>?.\<close> passes \<^verbatim>\<open>undefined\<close> on.\<close>

fun displayName :: "string \<Rightarrow> S3Item \<Rightarrow> string option" where
  "displayName pfx (FolderItem p) =
     map_option (\<lambda>q. replace (replace q pfx []) ''/'' []) (Prefix p)"
| "displayName pfx (FileItem c) = map_option (\<lambda>k. replace k pfx []) (Key c)"

definition matchesQuery :: "state \<Rightarrow> S3Item \<Rightarrow> bool" where
  "matchesQuery s item =
     (case displayName (prefix s) item of
        None \<Rightarrow> False
      | Some n \<Rightarrow> includesStr (toLowerCase n) (toLowerCase (searchQuery s)))"

definition filteredItems :: "state \<Rightarrow> S3Item list" where
  "filteredItems s = (if searchQuery s = [] then items s else filter (matchesQuery s) (items s))"

definition totalPages :: "state \<Rightarrow> int" where
  "totalPages s = \<lceil>real (length (filteredItems s)) / real_of_int (itemsPerPage s)\<rceil>"

definition startIndex :: "state \<Rightarrow> int" where
  "startIndex s = (currentPage s - 1) * itemsPerPage s"

definition endIndex :: "state \<Rightarrow> int" where
  "endIndex s = startIndex s + itemsPerPage s"

definition paginatedItems :: "state \<Rightarrow> S3Item list" where
  "paginatedItems s = slice (filteredItems s) (startIndex s) (endIndex s)"

definition areAllVisibleSelected :: "state \<Rightarrow> bool" where
  "areAllVisibleSelected s =
     (length (paginatedItems s) > 0
      \<and> fcard (selectedKeys s) = length (paginatedItems s)
      \<and> list_all (\<lambda>item. itemKey item |\<in>| selectedKeys s) (paginatedItems s))"

definition isAnyVisibleSelected :: "state \<Rightarrow> bool" where
  "isAnyVisibleSelected s = list_ex (\<lambda>item. itemKey item |\<in>| selectedKeys s) (paginatedItems s)"

text \<open>The \<^verbatim>\<open>checked\<close> property of the select-all checkbox.\<close>

definition selectAllChecked :: "state \<Rightarrow> CheckedState" where
  "selectAllChecked s =
     (if areAllVisibleSelected s then Checked True
      else if isAnyVisibleSelected s then Indeterminate else Checked False)"

section \<open>Event handlers\<close>

text \<open>
  What \<^verbatim>\<open>handleItemClick\<close> reads of the mouse event: whether the click target lies inside
  an element with the checkbox role, and whether it lies inside a row of class
  \<^verbatim>\<open>selected\<close>.
\<close>

record MouseEvent =
  inCheckbox :: bool
  inSelectedRow :: bool

definition handleItemClick :: "S3Item \<Rightarrow> MouseEvent \<Rightarrow> state \<Rightarrow> state" where
  "handleItemClick item e s =
     (if inCheckbox e \<or> inSelectedRow e then s
      else (case item of
              FolderItem p \<Rightarrow>
                (case Prefix p of
                   None \<Rightarrow> s\<lparr>selectedItem := Some item\<rparr>
                 | Some q \<Rightarrow>
                     if q = [] then s\<lparr>selectedItem := Some item\<rparr>
                     else if Some q |\<in>| selectedKeys s then s
                     else s\<lparr>prefix := q, searchQuery := []\<rparr>)
            | FileItem c \<Rightarrow> s\<lparr>selectedItem := Some item\<rparr>))"

definition handleBreadcrumbClick :: "string \<Rightarrow> state \<Rightarrow> state" where
  "handleBreadcrumbClick path s = s\<lparr>prefix := path, searchQuery := []\<rparr>"

definition handleSelect :: "string option \<Rightarrow> CheckedState \<Rightarrow> state \<Rightarrow> state" where
  "handleSelect k checked s =
     s\<lparr>selectedKeys :=
         (if truthy checked then finsert k (selectedKeys s) else selectedKeys s |-| {|k|})\<rparr>"

definition handleSelectAll :: "CheckedState \<Rightarrow> state \<Rightarrow> state" where
  "handleSelectAll checked s =
     (if truthy checked then s\<lparr>selectedKeys := fset_of_list (map itemKey (paginatedItems s))\<rparr>
      else s\<lparr>selectedKeys := {||}\<rparr>)"

subsection \<open>Listing requests\<close>

text \<open>What a handler does besides updating the state.\<close>

datatype Toast =
  ConnectionError string nat
| DownloadStarted nat
| DownloadFailed

datatype Effect =
  ShowToast Toast
| ConsoleError
| Disconnect
| SaveArchive string

definition fetchFailedText :: string where
  "fetchFailedText = ''Failed to fetch bucket contents. Please check credentials and bucket name.''"

definition corsText :: string where
  "corsText = ''This might be a CORS issue. Your S3 bucket needs to be configured to allow requests from this web application's domain. Please check your bucket's CORS settings.''"

definition errorDescription :: "JsError \<Rightarrow> string" where
  "errorDescription e =
     (if name e = ''NetworkError''
         \<or> (case message e of
               None \<Rightarrow> False
             | Some m \<Rightarrow> m \<noteq> [] \<and> includesStr (toLowerCase m) ''failed to fetch'')
      then corsText
      else (case message e of None \<Rightarrow> fetchFailedText
            | Some m \<Rightarrow> if m = [] then fetchFailedText else m))"

text \<open>\<^verbatim>\<open>fetchItems\<close> up to its \<^verbatim>\<open>await\<close>: the spinner is shown and the command is sent.\<close>

definition fetchItemsSend :: "string \<Rightarrow> state \<Rightarrow> state" where
  "fetchItemsSend currentPrefix s = s\<lparr>isLoading := True, inFlight := inFlight s @ [currentPrefix]\<rparr>"

text \<open>
  \<^verbatim>\<open>fetchItems\<close> from its \<^verbatim>\<open>await\<close> on, for the response or the thrown error of the
  store client.
\<close>

definition fetchItemsDone :: "string \<Rightarrow> JsError + ListObjectsV2Output \<Rightarrow> state \<Rightarrow> state \<times> Effect list" where
  "fetchItemsDone currentPrefix result s =
     (case result of
        Inr response \<Rightarrow>
          (s\<lparr>items := listing currentPrefix response, selectedKeys := {||}, isLoading := False\<rparr>, [])
      | Inl e \<Rightarrow>
          (s\<lparr>isLoading := False\<rparr>,
           [ShowToast (ConnectionError (errorDescription e)
                         (if includesStr (errorDescription e) ''CORS'' then 20000 else 5000)),
            ConsoleError, Disconnect]))"

definition handleUploadComplete :: "state \<Rightarrow> state" where
  "handleUploadComplete s = (fetchItemsSend (prefix s) s)\<lparr>uploadDialogOpen := False\<rparr>"

subsection \<open>Export of the selection\<close>

text \<open>The \<^verbatim>\<open>type\<close> tag of an item: \<^verbatim>\<open>'file'\<close> or \<^verbatim>\<open>'folder'\<close>.\<close>

datatype ItemType = TypeFile | TypeFolder

fun itemType :: "S3Item \<Rightarrow> ItemType" where
  "itemType (FolderItem p) = TypeFolder"
| "itemType (FileItem c) = TypeFile"

definition itemsToDownload :: "state \<Rightarrow> (string option \<times> ItemType) list" where
  "itemsToDownload s =
     map (\<lambda>item. (itemKey item, itemType item))
       (filter (\<lambda>item. itemKey item |\<in>| selectedKeys s) (items s))"

text \<open>
  \<^verbatim>\<open>handleDownloadSelected\<close>. The server action \<^verbatim>\<open>getItemsAsZip\<close> lives outside the
  component and is a parameter here: applied to the request list it yields the archive in
  base64 or throws. The handler is taken as one step, the state at its \<^verbatim>\<open>await\<close>
  being the one it started from.
\<close>

definition handleDownloadSelected ::
  "((string option \<times> ItemType) list \<Rightarrow> JsError + string) \<Rightarrow> state \<Rightarrow> state \<times> Effect list" where
  "handleDownloadSelected getItemsAsZip s =
     (if fcard (selectedKeys s) = 0 then (s, [])
      else (case getItemsAsZip (itemsToDownload s) of
              Inr base64Zip \<Rightarrow>
                (s\<lparr>selectedKeys := {||}, isDownloading := False\<rparr>,
                 [SaveArchive base64Zip, ShowToast (DownloadStarted (length (itemsToDownload s)))])
            | Inl err \<Rightarrow>
                (s\<lparr>isDownloading := False\<rparr>, [ConsoleError, ShowToast DownloadFailed])))"

subsection \<open>Pagination controls\<close>

text \<open>The controls are rendered when more than ten items pass the filter.\<close>

definition paginationShown :: "state \<Rightarrow> bool" where
  "paginationShown s = (length (filteredItems s) > 10)"

definition pageLinksShown :: "state \<Rightarrow> bool" where
  "pageLinksShown s = (paginationShown s \<and> totalPages s > 1)"

definition pageSizes :: "int list" where
  "pageSizes = [10, 25, 50, 100]"

definition previousPage :: "state \<Rightarrow> state" where
  "previousPage s = (if currentPage s > 1 then s\<lparr>currentPage := currentPage s - 1\<rparr> else s)"

definition nextPage :: "state \<Rightarrow> state" where
  "nextPage s = (if currentPage s < totalPages s then s\<lparr>currentPage := currentPage s + 1\<rparr> else s)"

text \<open>The number on the \<open>i\<close>-th page link, \<open>i\<close> counted from 0.\<close>

definition pageNum :: "state \<Rightarrow> nat \<Rightarrow> int" where
  "pageNum s i =
     (if totalPages s \<le> 5 then int i + 1
      else if currentPage s \<le> 3 then int i + 1
      else if currentPage s \<ge> totalPages s - 2 then totalPages s - 4 + int i
      else currentPage s - 2 + int i)"

section \<open>The component as a transition system\<close>

text \<open>
  An event is one thing that can happen to the mounted component: a user action on a
  rendered control, or the completion of a listing request in flight. Rows and the
  select-all checkbox exist only while the spinner is not shown; a control that is not
  rendered, or is disabled, cannot be used, and the event then leaves the state as it is.
\<close>

datatype Event =
  RowClick nat MouseEvent
| NameCellClick nat MouseEvent
| RowCheckbox nat CheckedState
| SelectAllCheckbox CheckedState
| BreadcrumbClick nat
| SearchInput string
| PageSizeSelect int
| PreviousClick
| NextClick
| PageLinkClick nat
| DownloadClick "JsError + string"
| UploadButtonClick
| UploadComplete
| DetailsClose
| ListingDone nat "JsError + ListObjectsV2Output"

definition rowShown :: "state \<Rightarrow> nat \<Rightarrow> bool" where
  "rowShown s i = (\<not> isLoading s \<and> i < length (paginatedItems s))"

fun handle :: "string \<Rightarrow> Event \<Rightarrow> state \<Rightarrow> state" where
  "handle rt (RowClick i e) s =
     (if rowShown s i then handleItemClick (paginatedItems s ! i) e s else s)"
| "handle rt (NameCellClick i e) s =
     (if rowShown s i then
        (if itemKey (paginatedItems s ! i) |\<in>| selectedKeys s
         then s\<lparr>selectedItem := Some (paginatedItems s ! i)\<rparr>
         else handleItemClick (paginatedItems s ! i) e s)
      else s)"
| "handle rt (RowCheckbox i checked) s =
     (if rowShown s i then handleSelect (itemKey (paginatedItems s ! i)) checked s else s)"
| "handle rt (SelectAllCheckbox checked) s =
     (if \<not> isLoading s \<and> paginatedItems s \<noteq> [] then handleSelectAll checked s else s)"
| "handle rt (BreadcrumbClick i) s =
     (if i + 1 < length (breadcrumbParts rt s) then handleBreadcrumbClick (fullPath rt s i) s else s)"
| "handle rt (SearchInput q) s = s\<lparr>searchQuery := q\<rparr>"
| "handle rt (PageSizeSelect n) s =
     (if paginationShown s \<and> n \<in> set pageSizes then s\<lparr>itemsPerPage := n\<rparr> else s)"
| "handle rt PreviousClick s = (if pageLinksShown s then previousPage s else s)"
| "handle rt NextClick s = (if pageLinksShown s then nextPage s else s)"
| "handle rt (PageLinkClick i) s =
     (if pageLinksShown s \<and> int i < min 5 (totalPages s) then s\<lparr>currentPage := pageNum s i\<rparr> else s)"
| "handle rt (DownloadClick outcome) s =
     (if fcard (selectedKeys s) > 0 \<and> \<not> isDownloading s
      then fst (handleDownloadSelected (\<lambda>requests. outcome) s) else s)"
| "handle rt UploadButtonClick s = s\<lparr>uploadDialogOpen := True\<rparr>"
| "handle rt UploadComplete s = handleUploadComplete s"
| "handle rt DetailsClose s = s\<lparr>selectedItem := None\<rparr>"
| "handle rt (ListingDone k result) s =
     (if k < length (inFlight s)
      then fst (fetchItemsDone (inFlight s ! k) result (s\<lparr>inFlight := take k (inFlight s) @ drop (Suc k) (inFlight s)\<rparr>))
      else s)"

text \<open>
  The effects that run after the render that follows a handler: the listing effect, with
  dependency \<^verbatim>\<open>prefix\<close>, and the page reset, with dependencies \<^verbatim>\<open>searchQuery\<close>,
  \<^verbatim>\<open>prefix\<close> and \<^verbatim>\<open>itemsPerPage\<close>. An effect runs when one of its dependencies
  differs from its value at the previous render.
\<close>

definition afterRender :: "state \<Rightarrow> state \<Rightarrow> state" where
  "afterRender old new =
     (let fetched = (if prefix new \<noteq> prefix old then fetchItemsSend (prefix new) new else new)
      in if searchQuery new \<noteq> searchQuery old \<or> prefix new \<noteq> prefix old
            \<or> itemsPerPage new \<noteq> itemsPerPage old
         then fetched\<lparr>currentPage := 1\<rparr> else fetched)"

definition step :: "string \<Rightarrow> state \<Rightarrow> Event \<Rightarrow> state" where
  "step rt s e = afterRender s (handle rt e s)"

definition run :: "string \<Rightarrow> state \<Rightarrow> Event list \<Rightarrow> state" where
  "run rt s evs = foldl (step rt) s evs"

text \<open>The component once mounted: the first listing, of the root folder, is in flight.\<close>

definition initialState :: "string \<Rightarrow> state" where
  "initialState rt =
     \<lparr>prefix = rt, items = [], selectedItem = None, isLoading = True, searchQuery = [],
      selectedKeys = {||}, isDownloading = False, currentPage = 1, itemsPerPage = 10,
      uploadDialogOpen = False, inFlight = [rt]\<rparr>"

text \<open>
  The assumption on the store client: every common prefix of a response extends the prefix
  that was queried. \<open>traceOk\<close> says that each listing completed along a run meets it.
\<close>

definition extendsQuery :: "string \<Rightarrow> ListObjectsV2Output \<Rightarrow> bool" where
  "extendsQuery q response =
     list_all (\<lambda>p. case Prefix p of None \<Rightarrow> True | Some f \<Rightarrow> startsWith f q)
       (orEmpty (CommonPrefixes response))"

fun eventOk :: "state \<Rightarrow> Event \<Rightarrow> bool" where
  "eventOk s (ListingDone k (Inr response)) =
     (k < length (inFlight s) \<longrightarrow> extendsQuery (inFlight s ! k) response)"
| "eventOk s e = True"

fun traceOk :: "string \<Rightarrow> state \<Rightarrow> Event list \<Rightarrow> bool" where
  "traceOk rt s [] = True"
| "traceOk rt s (e # es) = (eventOk s e \<and> traceOk rt (step rt s e) es)"

subsection \<open>Invariants of the transition system\<close>

text \<open>
  The current prefix, the prefix of every listing in flight and the prefix of every folder in
  the item list start with the root folder.
\<close>

definition underRoot :: "string \<Rightarrow> state \<Rightarrow> bool" where
  "underRoot rt s \<longleftrightarrow>
     startsWith (prefix s) rt
     \<and> (\<forall>q \<in> set (inFlight s). startsWith q rt)
     \<and> (\<forall>p f. FolderItem p \<in> set (items s) \<longrightarrow> Prefix p = Some f \<longrightarrow> startsWith f rt)"

text \<open>The events that complete a listing request, as opposed to the actions of the user.\<close>

fun isListingDone :: "Event \<Rightarrow> bool" where
  "isListingDone (ListingDone k result) = True"
| "isListingDone e = False"

subsection \<open>Sample inputs\<close>

text \<open>
  Inputs for the concrete runs below: a listing of one file per character of a string, each
  of 100 bytes, and an archive action that always throws, respectively always succeeds.
\<close>

definition objectsNamed :: "string \<Rightarrow> Object list" where
  "objectsNamed cs = map (\<lambda>c. \<lparr>Key = Some [c], Size = Some 100, LastModified = None\<rparr>) cs"

definition filesListing :: "string \<Rightarrow> ListObjectsV2Output" where
  "filesListing cs = \<lparr>CommonPrefixes = None, Contents = Some (objectsNamed cs)\<rparr>"

definition zipFails :: "(string option \<times> ItemType) list \<Rightarrow> JsError + string" where
  "zipFails requests = Inl \<lparr>name = ''Error'', message = Some ''AccessDenied''\<rparr>"

definition zipSucceeds :: "(string option \<times> ItemType) list \<Rightarrow> JsError + string" where
  "zipSucceeds requests = Inr ''UEsDBAoAAAAAAA==''"

text \<open>
  A walk under the root folder \<^verbatim>\<open>docs/\<close>: into \<^verbatim>\<open>docs/img/\<close>, on into
  \<^verbatim>\<open>docs/img/raw/\<close>, and back to \<^verbatim>\<open>docs/img/\<close> by the breadcrumb.
\<close>

definition sampleWalk :: "Event list" where
  "sampleWalk =
     [ListingDone 0 (Inr \<lparr>CommonPrefixes = Some [\<lparr>Prefix = Some ''docs/img/''\<rparr>], Contents = None\<rparr>),
      RowClick 0 \<lparr>inCheckbox = False, inSelectedRow = False\<rparr>,
      ListingDone 0 (Inr \<lparr>CommonPrefixes = Some [\<lparr>Prefix = Some ''docs/img/raw/''\<rparr>], Contents = None\<rparr>),
      RowClick 0 \<lparr>inCheckbox = False, inSelectedRow = False\<rparr>,
      BreadcrumbClick 1]"

section \<open>Listing\<close>

lemma sizePositive_iff: "sizePositive c \<longleftrightarrow> (\<exists>n. Size c = Some n \<and> 0 < n)"
  by (cases "Size c") (simp_all add: sizePositive_def)

text \<open>
  C1. Whatever the store client answers, the item list set by \<^verbatim>\<open>fetchItems\<close> is the
  common prefixes as folders, in the order of the response, followed by the objects as files,
  in the order of the response, where an object is kept exactly when its key differs from
  the queried prefix and its size is greater than 0. Nothing else is dropped or moved.
\<close>

theorem fetchItems_folders_then_kept_files:
  "items (fst (fetchItemsDone q (Inr response) s)) =
     map FolderItem (orEmpty (CommonPrefixes response))
     @ map FileItem
         (filter (\<lambda>c. Key c \<noteq> Some q \<and> (\<exists>n. Size c = Some n \<and> 0 < n))
            (orEmpty (Contents response)))"
  by (simp add: fetchItemsDone_def listing_def folders_def files_def sizePositive_iff)

text \<open>
  The folder \<^verbatim>\<open>docs/img/\<close> stays, its zero-size placeholder object and the object named
  as the queried prefix go.
\<close>

lemma listing_placeholder_excluded:
  "listing ''docs/''
     \<lparr>CommonPrefixes = Some [\<lparr>Prefix = Some ''docs/img/''\<rparr>],
      Contents = Some [\<lparr>Key = Some ''docs/img/'', Size = Some 0, LastModified = None\<rparr>,
                       \<lparr>Key = Some ''docs/'', Size = Some 0, LastModified = None\<rparr>,
                       \<lparr>Key = Some ''docs/a.txt'', Size = Some 7, LastModified = None\<rparr>]\<rparr>
   = [FolderItem \<lparr>Prefix = Some ''docs/img/''\<rparr>,
      FileItem \<lparr>Key = Some ''docs/a.txt'', Size = Some 7, LastModified = None\<rparr>]"
  by (simp add: listing_def folders_def files_def orEmpty_def sizePositive_def)

lemma step_ListingDone:
  "k < length (inFlight s) \<Longrightarrow>
   step rt s (ListingDone k result) =
     fst (fetchItemsDone (inFlight s ! k) result
            (s\<lparr>inFlight := take k (inFlight s) @ drop (Suc k) (inFlight s)\<rparr>))"
  by (cases result) (simp_all add: step_def afterRender_def fetchItemsDone_def)

text \<open>
  C3. When a listing request in flight completes without error, whichever navigation sent
  it, the selection is empty in the state that results.
\<close>

theorem selection_empty_after_listing:
  "k < length (inFlight s) \<Longrightarrow>
   selectedKeys (step rt s (ListingDone k (Inr response))) = {||}"
  by (simp add: step_ListingDone fetchItemsDone_def)

theorem selection_empty_after_listing_witness:
  "0 < length (inFlight ((initialState ''docs/'')\<lparr>selectedKeys := {|Some ''docs/a.txt''|}\<rparr>))
   \<and> selectedKeys
        (step ''docs/'' ((initialState ''docs/'')\<lparr>selectedKeys := {|Some ''docs/a.txt''|}\<rparr>)
           (ListingDone 0 (Inr \<lparr>CommonPrefixes = None, Contents = None\<rparr>))) = {||}"
proof -
  have h: "0 < length (inFlight ((initialState ''docs/'')\<lparr>selectedKeys := {|Some ''docs/a.txt''|}\<rparr>))"
    by (simp add: initialState_def)
  from selection_empty_after_listing [OF h] h show ?thesis by simp
qed

section \<open>Selection\<close>

lemma matchesQuery_selectedKeys_update [simp]:
  "matchesQuery (s\<lparr>selectedKeys := ks\<rparr>) = matchesQuery s"
  by (rule ext) (simp add: matchesQuery_def split: option.split)

lemma paginatedItems_selectedKeys_update [simp]:
  "paginatedItems (s\<lparr>selectedKeys := ks\<rparr>) = paginatedItems s"
  by (simp add: paginatedItems_def filteredItems_def startIndex_def endIndex_def)

text \<open>
  C5. Whatever was selected before, \<^verbatim>\<open>handleSelectAll(true)\<close> makes the selection exactly
  the set of keys of the items on the current page (the filtered and paginated items), and
  \<^verbatim>\<open>handleSelectAll(false)\<close> makes it empty; the page itself is the same before and after.
\<close>

theorem handleSelectAll_replaces:
  "fset (selectedKeys (handleSelectAll (Checked True) s)) = itemKey ` set (paginatedItems s)
   \<and> selectedKeys (handleSelectAll (Checked False) s) = {||}
   \<and> paginatedItems (handleSelectAll c s) = paginatedItems s"
  by (simp add: handleSelectAll_def fset_of_list.rep_eq)

subsection \<open>The state of the select-all checkbox\<close>

lemma areAll_imp_any: "areAllVisibleSelected s \<Longrightarrow> isAnyVisibleSelected s"
  by (cases "paginatedItems s") (simp_all add: areAllVisibleSelected_def isAnyVisibleSelected_def)

text \<open>
  C6, as the code has it. The checkbox shows \<^verbatim>\<open>true\<close> (all) exactly when the page is not
  empty, every key on the page is selected and the selection has as many keys as the page has
  items; it shows \<^verbatim>\<open>"indeterminate"\<close> (some) exactly when at least one key on the page is
  selected and the conditions for all do not hold together; it shows \<^verbatim>\<open>false\<close> (none)
  exactly when no key on the page is selected.
\<close>

theorem selectAllChecked_cases:
  "(selectAllChecked s = Checked True \<longleftrightarrow>
      paginatedItems s \<noteq> [] \<and> fcard (selectedKeys s) = length (paginatedItems s)
      \<and> (\<forall>item \<in> set (paginatedItems s). itemKey item |\<in>| selectedKeys s))
   \<and> (selectAllChecked s = Indeterminate \<longleftrightarrow>
      (\<exists>item \<in> set (paginatedItems s). itemKey item |\<in>| selectedKeys s)
      \<and> \<not> (paginatedItems s \<noteq> [] \<and> fcard (selectedKeys s) = length (paginatedItems s)
             \<and> (\<forall>item \<in> set (paginatedItems s). itemKey item |\<in>| selectedKeys s)))
   \<and> (selectAllChecked s = Checked False \<longleftrightarrow>
      \<not> (\<exists>item \<in> set (paginatedItems s). itemKey item |\<in>| selectedKeys s))"
proof -
  have all: "areAllVisibleSelected s \<longleftrightarrow>
      paginatedItems s \<noteq> [] \<and> fcard (selectedKeys s) = length (paginatedItems s)
      \<and> (\<forall>item \<in> set (paginatedItems s). itemKey item |\<in>| selectedKeys s)"
    by (simp add: areAllVisibleSelected_def list_all_iff)
  have some: "isAnyVisibleSelected s \<longleftrightarrow>
      (\<exists>item \<in> set (paginatedItems s). itemKey item |\<in>| selectedKeys s)"
    by (simp add: isAnyVisibleSelected_def list_ex_iff)
  show ?thesis
    using areAll_imp_any [of s] unfolding all [symmetric] some [symmetric]
    by (auto simp add: selectAllChecked_def)
qed

text \<open>Two files listed and select-all ticked: the checkbox shows all.\<close>

theorem selectAllChecked_cases_witness:
  "selectAllChecked (run [] (initialState [])
       [ListingDone 0 (Inr (filesListing ''ab'')), SelectAllCheckbox (Checked True)]) = Checked True
   \<and> paginatedItems (run [] (initialState [])
       [ListingDone 0 (Inr (filesListing ''ab'')), SelectAllCheckbox (Checked True)]) \<noteq> []
   \<and> fcard (selectedKeys (run [] (initialState [])
       [ListingDone 0 (Inr (filesListing ''ab'')), SelectAllCheckbox (Checked True)]))
     = length (paginatedItems (run [] (initialState [])
       [ListingDone 0 (Inr (filesListing ''ab'')), SelectAllCheckbox (Checked True)]))"
proof -
  let ?s = "run [] (initialState [])
       [ListingDone 0 (Inr (filesListing ''ab'')), SelectAllCheckbox (Checked True)]"
  have h: "selectAllChecked ?s = Checked True" by code_simp
  from selectAllChecked_cases [of ?s] h show ?thesis by blast
qed

text \<open>
  C6 as stated fails. Files \<^verbatim>\<open>a\<close> and \<^verbatim>\<open>b\<close> are listed and both ticked, then the
  search box receives \<^verbatim>\<open>a\<close>: the page shows only \<^verbatim>\<open>a\<close>, which is selected, and the
  checkbox shows some, not all, because the selection still holds \<^verbatim>\<open>b\<close>.
\<close>

theorem select_all_state_counterexample:
  "paginatedItems (run [] (initialState [])
       [ListingDone 0 (Inr (filesListing ''ab'')), RowCheckbox 0 (Checked True),
        RowCheckbox 1 (Checked True), SearchInput ''a''])
     = [FileItem \<lparr>Key = Some ''a'', Size = Some 100, LastModified = None\<rparr>]
   \<and> Some ''a'' |\<in>| selectedKeys (run [] (initialState [])
       [ListingDone 0 (Inr (filesListing ''ab'')), RowCheckbox 0 (Checked True),
        RowCheckbox 1 (Checked True), SearchInput ''a''])
   \<and> selectAllChecked (run [] (initialState [])
       [ListingDone 0 (Inr (filesListing ''ab'')), RowCheckbox 0 (Checked True),
        RowCheckbox 1 (Checked True), SearchInput ''a'']) = Indeterminate"
  by code_simp

text \<open>
  When the keys on the page are pairwise distinct, the count condition says that nothing
  outside the page is selected: all means that the selection is exactly the page's key set.
\<close>

lemma all_selected_iff_exact:
  assumes "distinct (map itemKey (paginatedItems s))"
  shows "areAllVisibleSelected s \<longleftrightarrow>
     paginatedItems s \<noteq> [] \<and> selectedKeys s = fset_of_list (map itemKey (paginatedItems s))"
proof -
  have cardK: "card (set (map itemKey (paginatedItems s))) = length (paginatedItems s)"
    using assms distinct_card by fastforce
  have sub_iff: "(\<forall>item \<in> set (paginatedItems s). itemKey item |\<in>| selectedKeys s)
      \<longleftrightarrow> set (map itemKey (paginatedItems s)) \<subseteq> fset (selectedKeys s)"
    by auto
  have eq_iff: "selectedKeys s = fset_of_list (map itemKey (paginatedItems s))
      \<longleftrightarrow> fset (selectedKeys s) = set (map itemKey (paginatedItems s))"
    by (metis fset_of_list.rep_eq fset_inject)
  show ?thesis
    unfolding areAllVisibleSelected_def list_all_iff sub_iff eq_iff fcard.rep_eq
    using cardK card_subset_eq [of "fset (selectedKeys s)" "set (map itemKey (paginatedItems s))"]
    by auto
qed

section \<open>Export\<close>

text \<open>
  C8, as the code has it. \<^verbatim>\<open>handleDownloadSelected\<close> reports a failed download exactly
  when the selection is not empty and the archive action throws; with an empty selection it
  returns at once: the state is unchanged, the archive action is not consulted and nothing
  is reported.
\<close>

theorem export_failure_reported:
  "(ShowToast DownloadFailed \<in> set (snd (handleDownloadSelected getItemsAsZip s))
      \<longleftrightarrow> selectedKeys s \<noteq> {||} \<and> (\<exists>err. getItemsAsZip (itemsToDownload s) = Inl err))
   \<and> (selectedKeys s = {||} \<longrightarrow> handleDownloadSelected getItemsAsZip s = (s, []))"
  by (cases "getItemsAsZip (itemsToDownload s)") (auto simp add: handleDownloadSelected_def)

theorem export_failure_reported_witness:
  "selectedKeys (initialState []) = {||}
   \<and> handleDownloadSelected zipFails (initialState []) = (initialState [], [])
   \<and> ShowToast DownloadFailed \<notin> set (snd (handleDownloadSelected zipFails (initialState [])))"
proof -
  have h: "selectedKeys (initialState []) = {||}" by (simp add: initialState_def)
  from export_failure_reported [of zipFails "initialState []"] h show ?thesis by simp
qed

text \<open>
  C8 as stated fails. Two files are listed and none is selected: the request list is empty,
  and the handler, even with an archive action that would throw, changes nothing and reports
  nothing.
\<close>

theorem export_empty_selection_counterexample:
  "itemsToDownload (run [] (initialState []) [ListingDone 0 (Inr (filesListing ''ab''))]) = []
   \<and> handleDownloadSelected zipFails (run [] (initialState []) [ListingDone 0 (Inr (filesListing ''ab''))])
       = (run [] (initialState []) [ListingDone 0 (Inr (filesListing ''ab''))], [])"
  by code_simp

text \<open>
  C9. For an export with a selection that is not empty: when the archive action succeeds the
  selection is empty afterwards, and when it throws the selection is the one before the
  attempt.
\<close>

theorem export_selection_effect:
  "selectedKeys s \<noteq> {||} \<Longrightarrow>
   selectedKeys (fst (handleDownloadSelected getItemsAsZip s)) =
     (case getItemsAsZip (itemsToDownload s) of Inr archive \<Rightarrow> {||} | Inl err \<Rightarrow> selectedKeys s)"
  by (simp add: handleDownloadSelected_def split: sum.split)

theorem export_selection_effect_witness:
  "selectedKeys ((initialState [])\<lparr>selectedKeys := {|Some ''a.txt''|}\<rparr>) \<noteq> {||}
   \<and> selectedKeys (fst (handleDownloadSelected zipSucceeds
         ((initialState [])\<lparr>selectedKeys := {|Some ''a.txt''|}\<rparr>))) = {||}
   \<and> selectedKeys (fst (handleDownloadSelected zipFails
         ((initialState [])\<lparr>selectedKeys := {|Some ''a.txt''|}\<rparr>))) = {|Some ''a.txt''|}"
proof -
  have h: "selectedKeys ((initialState [])\<lparr>selectedKeys := {|Some ''a.txt''|}\<rparr>) \<noteq> {||}"
    by simp
  from export_selection_effect [OF h, of zipSucceeds] export_selection_effect [OF h, of zipFails] h
  show ?thesis by (simp add: zipSucceeds_def zipFails_def)
qed

section \<open>Navigation\<close>

lemma handleItemClick_selected_folder:
  "Prefix p |\<in>| selectedKeys s \<Longrightarrow>
   prefix (handleItemClick (FolderItem p) e s) = prefix s
   \<and> searchQuery (handleItemClick (FolderItem p) e s) = searchQuery s
   \<and> items (handleItemClick (FolderItem p) e s) = items s
   \<and> itemsPerPage (handleItemClick (FolderItem p) e s) = itemsPerPage s
   \<and> currentPage (handleItemClick (FolderItem p) e s) = currentPage s
   \<and> inFlight (handleItemClick (FolderItem p) e s) = inFlight s"
  by (auto simp add: handleItemClick_def split: option.split)

text \<open>
  C10. A click on the row of a folder whose prefix is in the selection does not navigate:
  the current prefix, the search query and the item list are as before, and no listing is
  requested.
\<close>

theorem selected_folder_click_stays:
  assumes "rowShown s i" and "paginatedItems s ! i = FolderItem p" and "Prefix p |\<in>| selectedKeys s"
  shows "prefix (step rt s (RowClick i e)) = prefix s
       \<and> searchQuery (step rt s (RowClick i e)) = searchQuery s
       \<and> items (step rt s (RowClick i e)) = items s
       \<and> inFlight (step rt s (RowClick i e)) = inFlight s"
  using assms handleItemClick_selected_folder [of p s e]
  by (simp add: step_def afterRender_def)

text \<open>The folder \<^verbatim>\<open>docs/\<close> is listed under the bucket root and ticked, then clicked.\<close>

theorem selected_folder_click_stays_witness:
  "rowShown (run [] (initialState [])
       [ListingDone 0 (Inr \<lparr>CommonPrefixes = Some [\<lparr>Prefix = Some ''docs/''\<rparr>], Contents = None\<rparr>),
        RowCheckbox 0 (Checked True)]) 0
   \<and> paginatedItems (run [] (initialState [])
       [ListingDone 0 (Inr \<lparr>CommonPrefixes = Some [\<lparr>Prefix = Some ''docs/''\<rparr>], Contents = None\<rparr>),
        RowCheckbox 0 (Checked True)]) ! 0 = FolderItem \<lparr>Prefix = Some ''docs/''\<rparr>
   \<and> Some ''docs/'' |\<in>| selectedKeys (run [] (initialState [])
       [ListingDone 0 (Inr \<lparr>CommonPrefixes = Some [\<lparr>Prefix = Some ''docs/''\<rparr>], Contents = None\<rparr>),
        RowCheckbox 0 (Checked True)])
   \<and> prefix (step [] (run [] (initialState [])
       [ListingDone 0 (Inr \<lparr>CommonPrefixes = Some [\<lparr>Prefix = Some ''docs/''\<rparr>], Contents = None\<rparr>),
        RowCheckbox 0 (Checked True)]) (RowClick 0 \<lparr>inCheckbox = False, inSelectedRow = False\<rparr>)) = []"
proof -
  let ?s = "run [] (initialState [])
       [ListingDone 0 (Inr \<lparr>CommonPrefixes = Some [\<lparr>Prefix = Some ''docs/''\<rparr>], Contents = None\<rparr>),
        RowCheckbox 0 (Checked True)]"
  have h1: "rowShown ?s 0" by code_simp
  have h2: "paginatedItems ?s ! 0 = FolderItem \<lparr>Prefix = Some ''docs/''\<rparr>" by code_simp
  have h3: "Prefix \<lparr>Prefix = Some ''docs/''\<rparr> |\<in>| selectedKeys ?s" by code_simp
  have h4: "prefix ?s = []" by code_simp
  from selected_folder_click_stays [OF h1 h2 h3, of "[]" "\<lparr>inCheckbox = False, inSelectedRow = False\<rparr>"]
    h1 h2 h3 h4
  show ?thesis by simp
qed

text \<open>The same click on a folder that is not selected does navigate.\<close>

lemma folder_click_navigates:
  assumes "rowShown s i" and "paginatedItems s ! i = FolderItem p" and "Prefix p = Some q"
    and "q \<noteq> []" and "Some q |\<notin>| selectedKeys s" and "\<not> inCheckbox e" and "\<not> inSelectedRow e"
  shows "prefix (step rt s (RowClick i e)) = q \<and> searchQuery (step rt s (RowClick i e)) = []"
  using assms by (auto simp add: step_def afterRender_def handleItemClick_def fetchItemsSend_def Let_def)

subsection \<open>The current prefix stays under the root folder\<close>

lemma startsWith_iff: "startsWith s p \<longleftrightarrow> (\<exists>t. s = p @ t)"
  unfolding startsWith_def
  by (metis append_eq_conv_conj append_take_drop_id)

lemma startsWith_trans: "startsWith f q \<Longrightarrow> startsWith q rt \<Longrightarrow> startsWith f rt"
  by (auto simp add: startsWith_iff)

lemma startsWith_append [simp]: "startsWith (rt @ t) rt"
  by (simp add: startsWith_iff)

lemma set_slice: "set (slice xs a b) \<subseteq> set xs"
  unfolding slice_def Let_def
  by (meson set_take_subset set_drop_subset subset_trans)

lemma set_paginatedItems: "set (paginatedItems s) \<subseteq> set (items s)"
proof -
  have "set (filteredItems s) \<subseteq> set (items s)" by (auto simp add: filteredItems_def)
  with set_slice [of "filteredItems s"] show ?thesis unfolding paginatedItems_def by blast
qed

lemma underRoot_irrelevant [simp]:
  "underRoot rt (s\<lparr>selectedItem := a\<rparr>) = underRoot rt s"
  "underRoot rt (s\<lparr>isLoading := b\<rparr>) = underRoot rt s"
  "underRoot rt (s\<lparr>searchQuery := c\<rparr>) = underRoot rt s"
  "underRoot rt (s\<lparr>selectedKeys := d\<rparr>) = underRoot rt s"
  "underRoot rt (s\<lparr>isDownloading := e\<rparr>) = underRoot rt s"
  "underRoot rt (s\<lparr>currentPage := f\<rparr>) = underRoot rt s"
  "underRoot rt (s\<lparr>itemsPerPage := g\<rparr>) = underRoot rt s"
  "underRoot rt (s\<lparr>uploadDialogOpen := h\<rparr>) = underRoot rt s"
  by (simp_all add: underRoot_def)

lemma underRoot_prefix: "underRoot rt s \<Longrightarrow> startsWith (prefix s) rt"
  by (simp add: underRoot_def)

lemma underRoot_prefix_update:
  "underRoot rt s \<Longrightarrow> startsWith q rt \<Longrightarrow> underRoot rt (s\<lparr>prefix := q\<rparr>)"
  by (simp add: underRoot_def)

lemma underRoot_fetchItemsSend:
  "underRoot rt s \<Longrightarrow> startsWith q rt \<Longrightarrow> underRoot rt (fetchItemsSend q s)"
  by (simp add: underRoot_def fetchItemsSend_def)

lemma underRoot_row:
  assumes "underRoot rt s" and "i < length (paginatedItems s)"
    and "paginatedItems s ! i = FolderItem p" and "Prefix p = Some f"
  shows "startsWith f rt"
proof -
  from assms(2,3) have "FolderItem p \<in> set (paginatedItems s)" by (metis nth_mem)
  with set_paginatedItems have "FolderItem p \<in> set (items s)" by blast
  with assms(1,4) show ?thesis by (simp add: underRoot_def)
qed

lemma underRoot_handleItemClick:
  assumes "underRoot rt s" and "i < length (paginatedItems s)"
  shows "underRoot rt (handleItemClick (paginatedItems s ! i) e s)"
proof (cases "paginatedItems s ! i")
  case (FolderItem p)
  with assms underRoot_row [OF assms(1,2)] show ?thesis
    by (auto simp add: handleItemClick_def underRoot_prefix_update split: option.split)
next
  case (FileItem c)
  with assms show ?thesis by (simp add: handleItemClick_def)
qed

lemma listing_folder_prefix:
  assumes "FolderItem p \<in> set (listing q response)" and "Prefix p = Some f"
    and "extendsQuery q response"
  shows "startsWith f q"
proof -
  from assms(1) have "p \<in> set (orEmpty (CommonPrefixes response))"
    by (auto simp add: listing_def folders_def files_def)
  with assms(3) have "case Prefix p of None \<Rightarrow> True | Some g \<Rightarrow> startsWith g q"
    by (simp add: extendsQuery_def list_all_iff)
  with assms(2) show ?thesis by simp
qed

lemma underRoot_listing:
  assumes inv: "underRoot rt s" and k: "k < length (inFlight s)"
    and ok: "extendsQuery (inFlight s ! k) response"
  shows "underRoot rt (fst (fetchItemsDone (inFlight s ! k) (Inr response)
           (s\<lparr>inFlight := take k (inFlight s) @ drop (Suc k) (inFlight s)\<rparr>)))"
proof -
  from inv k have q: "startsWith (inFlight s ! k) rt" by (simp add: underRoot_def)
  have rest: "set (take k (inFlight s) @ drop (Suc k) (inFlight s)) \<subseteq> set (inFlight s)"
    using set_take_subset [of k "inFlight s"] set_drop_subset [of "Suc k" "inFlight s"] by auto
  have new: "\<And>p f. FolderItem p \<in> set (listing (inFlight s ! k) response) \<Longrightarrow> Prefix p = Some f
      \<Longrightarrow> startsWith f rt"
    using listing_folder_prefix [OF _ _ ok] q startsWith_trans by blast
  from inv rest new show ?thesis
    by (auto simp add: underRoot_def fetchItemsDone_def)
qed

lemma underRoot_listing_failed:
  assumes inv: "underRoot rt s"
  shows "underRoot rt (fst (fetchItemsDone q (Inl err)
           (s\<lparr>inFlight := take k (inFlight s) @ drop (Suc k) (inFlight s)\<rparr>)))"
proof -
  have rest: "set (take k (inFlight s) @ drop (Suc k) (inFlight s)) \<subseteq> set (inFlight s)"
    using set_take_subset [of k "inFlight s"] set_drop_subset [of "Suc k" "inFlight s"] by auto
  from inv rest show ?thesis
    by (auto simp add: underRoot_def fetchItemsDone_def)
qed

lemma underRoot_handle:
  assumes "underRoot rt s" and "eventOk s e"
  shows "underRoot rt (handle rt e s)"
proof (cases e)
  case (RowClick i m)
  with assms show ?thesis by (simp add: rowShown_def underRoot_handleItemClick)
next
  case (NameCellClick i m)
  with assms show ?thesis by (simp add: rowShown_def underRoot_handleItemClick)
next
  case (RowCheckbox i c)
  with assms show ?thesis by (simp add: handleSelect_def)
next
  case (SelectAllCheckbox c)
  with assms show ?thesis by (simp add: handleSelectAll_def)
next
  case (BreadcrumbClick i)
  with assms show ?thesis
    by (simp add: handleBreadcrumbClick_def fullPath_def underRoot_prefix_update)
next
  case (DownloadClick outcome)
  with assms show ?thesis by (cases outcome) (simp_all add: handleDownloadSelected_def)
next
  case UploadComplete
  with assms show ?thesis
    by (simp add: handleUploadComplete_def underRoot_fetchItemsSend underRoot_prefix)
next
  case (ListingDone k result)
  show ?thesis
  proof (cases result)
    case (Inl err)
    with ListingDone assms underRoot_listing_failed show ?thesis by simp
  next
    case (Inr response)
    with ListingDone assms underRoot_listing show ?thesis by simp
  qed
qed (use assms in \<open>simp_all add: previousPage_def nextPage_def\<close>)

lemma underRoot_afterRender:
  "underRoot rt new \<Longrightarrow> underRoot rt (afterRender old new)"
  by (simp add: afterRender_def Let_def underRoot_fetchItemsSend underRoot_prefix)

lemma underRoot_step: "underRoot rt s \<Longrightarrow> eventOk s e \<Longrightarrow> underRoot rt (step rt s e)"
  by (simp add: step_def underRoot_afterRender underRoot_handle)

lemma underRoot_run: "underRoot rt s \<Longrightarrow> traceOk rt s evs \<Longrightarrow> underRoot rt (run rt s evs)"
  by (induction evs arbitrary: s) (simp_all add: run_def underRoot_step)

lemma underRoot_initialState: "underRoot rt (initialState rt)"
  using startsWith_append [of rt "[]"] by (simp add: underRoot_def initialState_def)

text \<open>
  C2. Along every sequence of events from the mounted component, folder clicks and
  breadcrumb clicks among them, in which each completed listing returns only common prefixes
  that extend the prefix it was asked for, the current prefix starts with the root folder.
\<close>

theorem currentPrefix_under_root:
  "traceOk rt (initialState rt) evs \<Longrightarrow> startsWith (prefix (run rt (initialState rt) evs)) rt"
  using underRoot_run [OF underRoot_initialState] by (simp add: underRoot_def)

theorem currentPrefix_under_root_witness:
  "traceOk ''docs/'' (initialState ''docs/'') sampleWalk
   \<and> prefix (run ''docs/'' (initialState ''docs/'') sampleWalk) = ''docs/img/''
   \<and> startsWith (prefix (run ''docs/'' (initialState ''docs/'') sampleWalk)) ''docs/''"
proof -
  have h: "traceOk ''docs/'' (initialState ''docs/'') sampleWalk" by code_simp
  have p: "prefix (run ''docs/'' (initialState ''docs/'') sampleWalk) = ''docs/img/''" by code_simp
  from currentPrefix_under_root [OF h] h p show ?thesis by simp
qed

section \<open>Pagination\<close>

lemma pageNum_ge_1: "1 \<le> currentPage s \<Longrightarrow> 1 \<le> pageNum s i"
  by (simp add: pageNum_def)

lemma afterRender_currentPage:
  "1 \<le> currentPage new \<Longrightarrow> 1 \<le> currentPage (afterRender old new)"
  by (simp add: afterRender_def Let_def fetchItemsSend_def)

lemma afterRender_itemsPerPage [simp]: "itemsPerPage (afterRender old new) = itemsPerPage new"
  by (simp add: afterRender_def Let_def fetchItemsSend_def)

lemma afterRender_searchQuery [simp]: "searchQuery (afterRender old new) = searchQuery new"
  by (simp add: afterRender_def Let_def fetchItemsSend_def)

lemma afterRender_prefix [simp]: "prefix (afterRender old new) = prefix new"
  by (simp add: afterRender_def Let_def fetchItemsSend_def)

lemma handleItemClick_page [simp]:
  "currentPage (handleItemClick item e s) = currentPage s"
  "itemsPerPage (handleItemClick item e s) = itemsPerPage s"
  by (simp_all add: handleItemClick_def split: S3Item.split option.split)

lemma fetchItemsDone_page [simp]:
  "currentPage (fst (fetchItemsDone q result s)) = currentPage s"
  "itemsPerPage (fst (fetchItemsDone q result s)) = itemsPerPage s"
  "searchQuery (fst (fetchItemsDone q result s)) = searchQuery s"
  "prefix (fst (fetchItemsDone q result s)) = prefix s"
  by (simp_all add: fetchItemsDone_def split: sum.split)

lemma handleDownloadSelected_page [simp]:
  "currentPage (fst (handleDownloadSelected g s)) = currentPage s"
  "itemsPerPage (fst (handleDownloadSelected g s)) = itemsPerPage s"
  by (simp_all add: handleDownloadSelected_def split: sum.split)

lemma handle_currentPage: "1 \<le> currentPage s \<Longrightarrow> 1 \<le> currentPage (handle rt e s)"
  by (cases e)
    (simp_all add: handleSelect_def handleSelectAll_def handleBreadcrumbClick_def
      previousPage_def nextPage_def pageNum_ge_1 handleUploadComplete_def fetchItemsSend_def)

lemma handle_itemsPerPage:
  "itemsPerPage s \<in> set pageSizes \<Longrightarrow> itemsPerPage (handle rt e s) \<in> set pageSizes"
  by (cases e)
    (simp_all add: handleSelect_def handleSelectAll_def handleBreadcrumbClick_def
      previousPage_def nextPage_def handleUploadComplete_def fetchItemsSend_def)

lemma run_page:
  "1 \<le> currentPage s \<Longrightarrow> itemsPerPage s \<in> set pageSizes \<Longrightarrow>
   1 \<le> currentPage (run rt s evs) \<and> itemsPerPage (run rt s evs) \<in> set pageSizes"
proof (induction evs arbitrary: s)
  case Nil
  then show ?case by (simp add: run_def)
next
  case (Cons e evs)
  have "run rt s (e # evs) = run rt (step rt s e) evs" by (simp add: run_def)
  moreover have "1 \<le> currentPage (step rt s e)"
    using Cons.prems(1) by (simp add: step_def afterRender_currentPage handle_currentPage)
  moreover have "itemsPerPage (step rt s e) \<in> set pageSizes"
    using Cons.prems(2) handle_itemsPerPage [of s rt e] by (simp add: step_def)
  ultimately show ?case using Cons.IH by simp
qed

lemma totalPages_zero_iff:
  assumes "0 < itemsPerPage s"
  shows "totalPages s = 0 \<longleftrightarrow> filteredItems s = []"
proof -
  have "0 \<le> real (length (filteredItems s)) / real_of_int (itemsPerPage s)"
    using assms by simp
  then have "totalPages s = 0 \<longleftrightarrow> real (length (filteredItems s)) / real_of_int (itemsPerPage s) = 0"
    unfolding totalPages_def by (metis ceiling_le_zero ceiling_zero order_antisym zero_le_ceiling less_eq_real_def not_less ceiling_less_zero le_less)
  with assms show ?thesis by simp
qed

text \<open>The page links lead to pages between 1 and the page count.\<close>

lemma pageNum_in_range:
  assumes "int i < min 5 (totalPages s)" and "1 \<le> currentPage s"
  shows "1 \<le> pageNum s i \<and> pageNum s i \<le> totalPages s"
  using assms by (auto simp add: pageNum_def)

subsection \<open>What the actions of the user keep\<close>

lemma matchesQuery_cong:
  "searchQuery t = searchQuery s \<Longrightarrow> prefix t = prefix s \<Longrightarrow> matchesQuery t = matchesQuery s"
  by (rule ext) (simp add: matchesQuery_def split: option.split)

lemma filteredItems_cong:
  "items t = items s \<Longrightarrow> searchQuery t = searchQuery s \<Longrightarrow> prefix t = prefix s \<Longrightarrow>
   filteredItems t = filteredItems s"
  using matchesQuery_cong [of t s] by (simp add: filteredItems_def)

lemma totalPages_cong:
  "items t = items s \<Longrightarrow> searchQuery t = searchQuery s \<Longrightarrow> prefix t = prefix s \<Longrightarrow>
   itemsPerPage t = itemsPerPage s \<Longrightarrow> totalPages t = totalPages s"
  using filteredItems_cong [of t s] by (simp add: totalPages_def)

lemma afterRender_items [simp]: "items (afterRender old new) = items new"
  by (simp add: afterRender_def Let_def fetchItemsSend_def)

lemma handleItemClick_items [simp]: "items (handleItemClick item e s) = items s"
  by (simp add: handleItemClick_def split: S3Item.split option.split)

lemma handle_items: "\<not> isListingDone e \<Longrightarrow> items (handle rt e s) = items s"
  by (cases e)
    (simp_all add: handleSelect_def handleSelectAll_def handleBreadcrumbClick_def
      previousPage_def nextPage_def handleUploadComplete_def fetchItemsSend_def
      handleDownloadSelected_def split: sum.split)

lemma afterRender_reset:
  "searchQuery new \<noteq> searchQuery old \<or> prefix new \<noteq> prefix old
     \<or> itemsPerPage new \<noteq> itemsPerPage old \<Longrightarrow> currentPage (afterRender old new) = 1"
  by (auto simp add: afterRender_def Let_def)

lemma afterRender_keep:
  "searchQuery new = searchQuery old \<Longrightarrow> prefix new = prefix old \<Longrightarrow>
   itemsPerPage new = itemsPerPage old \<Longrightarrow> currentPage (afterRender old new) = currentPage new"
  by (simp add: afterRender_def Let_def)

lemma pageNum_le_totalPages: "int i < min 5 (totalPages s) \<Longrightarrow> pageNum s i \<le> totalPages s"
  by (auto simp add: pageNum_def)

lemma handle_page_bound:
  assumes "currentPage s \<le> max 1 (totalPages s)" and "\<not> isListingDone e"
  shows "currentPage (handle rt e s) \<le> max 1 (totalPages s)"
proof (cases e)
  case (PageLinkClick i)
  with assms pageNum_le_totalPages [of i s] show ?thesis by auto
next
  case NextClick
  with assms show ?thesis by (auto simp add: nextPage_def)
next
  case PreviousClick
  with assms show ?thesis by (auto simp add: previousPage_def)
qed (use assms in \<open>simp_all add: handleSelect_def handleSelectAll_def handleBreadcrumbClick_def
      handleUploadComplete_def fetchItemsSend_def\<close>)

lemma step_page_bound:
  assumes "\<not> isListingDone e" and "currentPage s \<le> max 1 (totalPages s)"
  shows "currentPage (step rt s e) \<le> max 1 (totalPages (step rt s e))"
proof (cases "searchQuery (handle rt e s) = searchQuery s \<and> prefix (handle rt e s) = prefix s
    \<and> itemsPerPage (handle rt e s) = itemsPerPage s")
  case True
  then have page: "currentPage (step rt s e) = currentPage (handle rt e s)"
    by (simp add: step_def afterRender_keep)
  have "totalPages (step rt s e) = totalPages s"
    using True handle_items [OF assms(1), of rt s] by (intro totalPages_cong) (simp_all add: step_def)
  with page handle_page_bound [OF assms(2,1), of rt] show ?thesis by simp
next
  case False
  then have "currentPage (step rt s e) = 1"
    unfolding step_def by (intro afterRender_reset) blast
  then show ?thesis by simp
qed


text \<open>
  C4, as the code has it. The page count is \<^verbatim>\<open>Math.ceil(filteredItems.length / itemsPerPage)\<close>,
  with no lower bound of 1: it is 0 exactly when no item passes the filter. In every
  reachable state the page index is at least 1 and the page size is one of 10, 25, 50 and
  100. Every action of the user, that is every event other than the completion of a listing,
  taken in a state where the page index is at most the larger of 1 and the page count, leads
  to a state where it is so again.
\<close>

theorem page_index_bounds:
  "1 \<le> currentPage (run rt (initialState rt) evs)
   \<and> itemsPerPage (run rt (initialState rt) evs) \<in> set pageSizes
   \<and> totalPages (run rt (initialState rt) evs) =
       \<lceil>real (length (filteredItems (run rt (initialState rt) evs)))
         / real_of_int (itemsPerPage (run rt (initialState rt) evs))\<rceil>
   \<and> (totalPages (run rt (initialState rt) evs) = 0
        \<longleftrightarrow> filteredItems (run rt (initialState rt) evs) = [])
   \<and> (\<not> isListingDone e \<and> currentPage s \<le> max 1 (totalPages s) \<longrightarrow>
        currentPage (step rt s e) \<le> max 1 (totalPages (step rt s e)))"
proof -
  have inv: "1 \<le> currentPage (run rt (initialState rt) evs)
      \<and> itemsPerPage (run rt (initialState rt) evs) \<in> set pageSizes"
    by (rule run_page) (simp_all add: initialState_def pageSizes_def)
  then have "0 < itemsPerPage (run rt (initialState rt) evs)"
    by (auto simp add: pageSizes_def)
  then have zero: "totalPages (run rt (initialState rt) evs) = 0
      \<longleftrightarrow> filteredItems (run rt (initialState rt) evs) = []"
    by (rule totalPages_zero_iff)
  have kept: "\<not> isListingDone e \<and> currentPage s \<le> max 1 (totalPages s) \<longrightarrow>
      currentPage (step rt s e) \<le> max 1 (totalPages (step rt s e))"
    using step_page_bound by blast
  from inv zero kept show ?thesis by (simp add: totalPages_def)
qed

text \<open>On the first page of eleven files, next leads to the second page of two.\<close>

theorem page_index_bounds_witness:
  "\<not> isListingDone NextClick
   \<and> currentPage (run [] (initialState []) [ListingDone 0 (Inr (filesListing ''abcdefghijk''))]) = 1
   \<and> totalPages (run [] (initialState []) [ListingDone 0 (Inr (filesListing ''abcdefghijk''))]) = 2
   \<and> currentPage (step [] (run [] (initialState [])
        [ListingDone 0 (Inr (filesListing ''abcdefghijk''))]) NextClick) = 2
   \<and> currentPage (step [] (run [] (initialState [])
        [ListingDone 0 (Inr (filesListing ''abcdefghijk''))]) NextClick)
      \<le> max 1 (totalPages (step [] (run [] (initialState [])
        [ListingDone 0 (Inr (filesListing ''abcdefghijk''))]) NextClick))"
proof -
  let ?s = "run [] (initialState []) [ListingDone 0 (Inr (filesListing ''abcdefghijk''))]"
  have h1: "\<not> isListingDone NextClick" by simp
  have h2: "currentPage ?s = 1" by code_simp
  have h3: "totalPages ?s = 2" by code_simp
  have h4: "currentPage (step [] ?s NextClick) = 2" by code_simp
  from h2 h3 have h5: "currentPage ?s \<le> max 1 (totalPages ?s)" by simp
  from page_index_bounds [of "[]" "[]" NextClick ?s] h1 h5
  have "currentPage (step [] ?s NextClick) \<le> max 1 (totalPages (step [] ?s NextClick))"
    by blast
  with h1 h2 h3 h4 show ?thesis by blast
qed

text \<open>
  C4 as stated fails. In an empty folder the page count is 0, not 1, and the page index 1 is
  greater than it.
\<close>

theorem empty_folder_page_count_counterexample:
  "totalPages (run [] (initialState [])
      [ListingDone 0 (Inr \<lparr>CommonPrefixes = None, Contents = None\<rparr>)]) = 0
   \<and> currentPage (run [] (initialState [])
      [ListingDone 0 (Inr \<lparr>CommonPrefixes = None, Contents = None\<rparr>)]) = 1"
  by code_simp

section \<open>Page reset\<close>

text \<open>
  C7, as the code has it. Every event that changes the search query, the current prefix or
  the page size leaves the page index at 1. A listing that completes, and the refresh that
  an upload requests, change the item list at most and leave the page index as it is. A
  click on a page link, on next below the last page or on previous above the first page
  sets the page index to the page chosen.
\<close>

theorem page_reset_on_change:
  "(searchQuery (step rt s e) \<noteq> searchQuery s \<or> prefix (step rt s e) \<noteq> prefix s
      \<or> itemsPerPage (step rt s e) \<noteq> itemsPerPage s \<longrightarrow> currentPage (step rt s e) = 1)
   \<and> currentPage (step rt s (ListingDone k result)) = currentPage s
   \<and> currentPage (step rt s UploadComplete) = currentPage s
   \<and> (pageLinksShown s \<and> int i < min 5 (totalPages s) \<longrightarrow>
        currentPage (step rt s (PageLinkClick i)) = pageNum s i)
   \<and> (pageLinksShown s \<and> currentPage s < totalPages s \<longrightarrow>
        currentPage (step rt s NextClick) = currentPage s + 1)
   \<and> (pageLinksShown s \<and> 1 < currentPage s \<longrightarrow>
        currentPage (step rt s PreviousClick) = currentPage s - 1)"
proof -
  have reset: "searchQuery (step rt s e) \<noteq> searchQuery s \<or> prefix (step rt s e) \<noteq> prefix s
      \<or> itemsPerPage (step rt s e) \<noteq> itemsPerPage s \<longrightarrow> currentPage (step rt s e) = 1"
    unfolding step_def by (auto simp add: afterRender_def Let_def)
  have listing: "currentPage (step rt s (ListingDone k result)) = currentPage s"
    by (simp add: step_def afterRender_def)
  have upload: "currentPage (step rt s UploadComplete) = currentPage s"
    by (simp add: step_def afterRender_def handleUploadComplete_def fetchItemsSend_def)
  have link: "pageLinksShown s \<and> int i < min 5 (totalPages s) \<longrightarrow>
        currentPage (step rt s (PageLinkClick i)) = pageNum s i"
    by (simp add: step_def afterRender_def)
  have nxt: "pageLinksShown s \<and> currentPage s < totalPages s \<longrightarrow>
        currentPage (step rt s NextClick) = currentPage s + 1"
    by (simp add: step_def afterRender_def nextPage_def)
  have prv: "pageLinksShown s \<and> 1 < currentPage s \<longrightarrow>
        currentPage (step rt s PreviousClick) = currentPage s - 1"
    by (simp add: step_def afterRender_def previousPage_def)
  from reset listing upload link nxt prv show ?thesis by blast
qed

text \<open>From the second page of eleven files, typing into the search box leads to page 1.\<close>

theorem page_reset_on_change_witness:
  "currentPage (run [] (initialState [])
      [ListingDone 0 (Inr (filesListing ''abcdefghijk'')), NextClick]) = 2
   \<and> searchQuery (step [] (run [] (initialState [])
      [ListingDone 0 (Inr (filesListing ''abcdefghijk'')), NextClick]) (SearchInput ''a''))
     \<noteq> searchQuery (run [] (initialState [])
      [ListingDone 0 (Inr (filesListing ''abcdefghijk'')), NextClick])
   \<and> currentPage (step [] (run [] (initialState [])
      [ListingDone 0 (Inr (filesListing ''abcdefghijk'')), NextClick]) (SearchInput ''a'')) = 1"
proof -
  let ?s = "run [] (initialState [])
      [ListingDone 0 (Inr (filesListing ''abcdefghijk'')), NextClick]"
  have h1: "currentPage ?s = 2" by code_simp
  have h2: "searchQuery (step [] ?s (SearchInput ''a'')) \<noteq> searchQuery ?s" by code_simp
  from page_reset_on_change [of "[]" ?s "SearchInput ''a''"] h1 h2 show ?thesis by blast
qed

text \<open>
  C7 as stated fails. With eleven files listed and the second page shown, the refresh after
  an upload finds twelve files: the item list changes and the page index stays 2.
\<close>

theorem item_list_change_counterexample:
  "items (run [] (initialState [])
      [ListingDone 0 (Inr (filesListing ''abcdefghijk'')), NextClick, UploadComplete])
     \<noteq> items (run [] (initialState [])
      [ListingDone 0 (Inr (filesListing ''abcdefghijk'')), NextClick, UploadComplete,
       ListingDone 0 (Inr (filesListing ''abcdefghijkl''))])
   \<and> currentPage (run [] (initialState [])
      [ListingDone 0 (Inr (filesListing ''abcdefghijk'')), NextClick, UploadComplete]) = 2
   \<and> currentPage (run [] (initialState [])
      [ListingDone 0 (Inr (filesListing ''abcdefghijk'')), NextClick, UploadComplete,
       ListingDone 0 (Inr (filesListing ''abcdefghijkl''))]) = 2"
  by code_simp


end
